theory Spec2Isabelle
  imports Main "HOL-Library.Word" "HOL-Library.Multiset" "HOL-Library.Signed_Division"
begin

unbundle bit_operations_syntax

text \<open>
  A model of the key-value database of \<open>sidquark/KeyValueDatabase\<close>: the sharded hash
  table (\<open>internal/storage\<close>), the append-only log and its recovery
  (\<open>internal/persistence\<close>) and the database that combines them
  (\<open>internal/database\<close>). Functions take the state they work on and return the new
  one; a panic is \<open>None\<close>; what the clock and the file system do is an argument.
\<close>

section \<open>Bytes, little-endian fields and CRC-32\<close>

text \<open>
  A Go \<open>[]byte\<close> is a list of 8-bit words, and so is a Go \<open>string\<close>: the conversions
  \<open>[]byte(entry.Key)\<close> and \<open>string(keyBytes)\<close> keep every byte. A \<open>[]byte\<close> may
  also be \<open>nil\<close>, which the code tests for in several places, so a value is a
  \<open>byte list option\<close> with \<open>None\<close> for \<open>nil\<close>.
\<close>

type_synonym byte = "8 word"

text \<open>\<open>binary.LittleEndian.PutUint16/32/64\<close>: the bytes written into the buffer.\<close>

definition PutUint16 :: "16 word \<Rightarrow> byte list" where
  "PutUint16 v = [ucast v, ucast (drop_bit 8 v)]"

definition PutUint32 :: "32 word \<Rightarrow> byte list" where
  "PutUint32 v = [ucast v, ucast (drop_bit 8 v), ucast (drop_bit 16 v), ucast (drop_bit 24 v)]"

definition PutUint64 :: "64 word \<Rightarrow> byte list" where
  "PutUint64 v = [ucast v, ucast (drop_bit 8 v), ucast (drop_bit 16 v), ucast (drop_bit 24 v),
     ucast (drop_bit 32 v), ucast (drop_bit 40 v), ucast (drop_bit 48 v), ucast (drop_bit 56 v)]"

text \<open>
  \<open>binary.LittleEndian.Uint16/32/64\<close>. Every call in the source passes a buffer of exactly
  the field's size, filled by a successful \<open>io.ReadFull\<close>.
\<close>

definition Uint16 :: "byte list \<Rightarrow> 16 word" where
  "Uint16 b = ucast (b ! 0) OR push_bit 8 (ucast (b ! 1))"

definition Uint32 :: "byte list \<Rightarrow> 32 word" where
  "Uint32 b = ucast (b ! 0) OR push_bit 8 (ucast (b ! 1)) OR push_bit 16 (ucast (b ! 2))
     OR push_bit 24 (ucast (b ! 3))"

definition Uint64 :: "byte list \<Rightarrow> 64 word" where
  "Uint64 b = ucast (b ! 0) OR push_bit 8 (ucast (b ! 1)) OR push_bit 16 (ucast (b ! 2))
     OR push_bit 24 (ucast (b ! 3)) OR push_bit 32 (ucast (b ! 4)) OR push_bit 40 (ucast (b ! 5))
     OR push_bit 48 (ucast (b ! 6)) OR push_bit 56 (ucast (b ! 7))"

text \<open>
  \<open>crc32.ChecksumIEEE\<close> of the Go standard library: the reflected CRC-32 with the IEEE
  polynomial \<open>0xedb88320\<close>, register preset to all ones and complemented at the end. One
  byte is folded in by xor-ing it into the low byte and shifting eight times.
\<close>

definition crc_shift :: "32 word \<Rightarrow> 32 word" where
  "crc_shift c = (if bit c 0 then drop_bit 1 c XOR 0xedb88320 else drop_bit 1 c)"

definition crc_byte :: "32 word \<Rightarrow> byte \<Rightarrow> 32 word" where
  "crc_byte c v = (crc_shift ^^ 8) (c XOR ucast v)"

definition crc_update :: "32 word \<Rightarrow> byte list \<Rightarrow> 32 word" where
  "crc_update crc p = NOT (foldl crc_byte (NOT crc) p)"

definition ChecksumIEEE :: "byte list \<Rightarrow> 32 word" where
  "ChecksumIEEE data = crc_update 0 data"

section \<open>Errors\<close>

text \<open>
  Go's \<open>error\<close> values that the program creates or passes on: the sentinels of the
  database package, the two end-of-file errors of \<open>io\<close>, an error of the operating
  system, \<open>fmt.Errorf\<close> with its message and the error it wraps (if any), the checksum
  mismatch of recovery with the two numbers it prints, and \<open>DatabaseError\<close> with its
  operation, key and cause.
\<close>

datatype error =
    ErrKeyNotFound
  | ErrEmptyKey
  | ErrInvalidKeyType
  | ErrNilValue
  | ErrDatabaseClosed
  | ErrLogWriteFailed
  | ErrCorruptedEntry
  | ErrRecoveryFailed
  | EOF
  | ErrUnexpectedEOF
  | OsError
  | Errorf string "error option"
  | ChecksumMismatch "32 word" "32 word"
  | DatabaseError string "byte list" error

definition NewDatabaseError :: "string \<Rightarrow> byte list \<Rightarrow> error \<Rightarrow> error" where
  "NewDatabaseError operation key err = DatabaseError operation key err"

section \<open>Log entries and their wire format\<close>

type_synonym LogOperation = byte

definition OperationSet :: LogOperation where
  "OperationSet = 1"

definition OperationDelete :: LogOperation where
  "OperationDelete = 2"

record LogEntry =
  Timestamp :: "64 word"
  Operation :: LogOperation
  Key :: "byte list"
  Value :: "byte list option"
  Checksum :: "32 word"

text \<open>\<open>Log.calculateChecksum\<close>: CRC-32 over timestamp, operation, key and value.\<close>

definition calculateChecksum :: "LogEntry \<Rightarrow> 32 word" where
  "calculateChecksum entry =
     ChecksumIEEE (PutUint64 (Timestamp entry) @ [Operation entry] @ Key entry
        @ (case Value entry of None \<Rightarrow> [] | Some v \<Rightarrow> v))"

text \<open>
  \<open>Log.serializeEntry\<close>. \<open>uint16(len(keyBytes))\<close> and \<open>uint32(len(entry.Value))\<close> are
  Go conversions, which keep the low bits: \<open>word_of_nat\<close>. Only the key length is checked.
\<close>

definition serializeEntry :: "LogEntry \<Rightarrow> error + byte list" where
  "serializeEntry entry =
     (let data = PutUint64 (Timestamp entry);
          data = data @ [Operation entry];
          keyBytes = Key entry
      in if length keyBytes > 65535 then Inl (Errorf ''key is too long'' None)
         else
           let data = data @ PutUint16 (word_of_nat (length keyBytes));
               data = data @ keyBytes;
               data = (case Value entry of
                         Some v \<Rightarrow> (data @ PutUint32 (word_of_nat (length v))) @ v
                       | None \<Rightarrow> data @ PutUint32 0);
               data = data @ PutUint32 (Checksum entry)
           in Inr data)"

section \<open>Recovery\<close>

text \<open>
  \<open>io.ReadFull(reader, buf)\<close> with \<open>len(buf) = n\<close> on a reader whose remaining input is
  \<open>r\<close>: the bytes read or the error, the number of bytes read, and the input left. With
  fewer than \<open>n\<close> bytes left it takes them all and fails, with \<open>io.EOF\<close> when it read
  nothing and \<open>io.ErrUnexpectedEOF\<close> otherwise; for \<open>n = 0\<close> it succeeds without reading.
\<close>

definition ReadFull :: "nat \<Rightarrow> byte list \<Rightarrow> (error + byte list) \<times> int \<times> byte list" where
  "ReadFull n r =
     (if n \<le> length r then (Inr (take n r), int n, drop n r)
      else if r = [] then (Inl EOF, 0, [])
      else (Inl ErrUnexpectedEOF, int (length r), []))"

text \<open>
  \<open>Recovery.readEntry\<close>: the entry or the error, \<open>bytesRead\<close>, and the input left in the
  reader.
\<close>

definition readEntry :: "byte list \<Rightarrow> (error + LogEntry) \<times> int \<times> byte list" where
  "readEntry reader =
     (let bytesRead = 0 in
      case ReadFull 8 reader of
        (Inl err, n, reader) \<Rightarrow> (Inl err, bytesRead + n, reader)
      | (Inr timeBytes, n, reader) \<Rightarrow>
      (let bytesRead = bytesRead + n; timestamp = Uint64 timeBytes in
      case ReadFull 1 reader of
        (Inl err, n, reader) \<Rightarrow> (Inl err, bytesRead + n, reader)
      | (Inr opByte, n, reader) \<Rightarrow>
      (let bytesRead = bytesRead + n; operation = opByte ! 0 in
      case ReadFull 2 reader of
        (Inl err, n, reader) \<Rightarrow> (Inl err, bytesRead + n, reader)
      | (Inr keyLenBytes, n, reader) \<Rightarrow>
      (let bytesRead = bytesRead + n; keyLen = Uint16 keyLenBytes in
      case ReadFull (unat keyLen) reader of
        (Inl err, n, reader) \<Rightarrow> (Inl err, bytesRead + n, reader)
      | (Inr keyBytes, n, reader) \<Rightarrow>
      (let bytesRead = bytesRead + n; key = keyBytes in
      case ReadFull 4 reader of
        (Inl err, n, reader) \<Rightarrow> (Inl err, bytesRead + n, reader)
      | (Inr valueLenBytes, n, reader) \<Rightarrow>
      (let bytesRead = bytesRead + n; valueLen = Uint32 valueLenBytes in
      case (if valueLen > 0
            then (case ReadFull (unat valueLen) reader of
                    (Inl err, n, reader) \<Rightarrow> (Inl err, n, reader)
                  | (Inr v, n, reader) \<Rightarrow> (Inr (Some v), n, reader))
            else (Inr None, 0, reader)) of
        (Inl err, n, reader) \<Rightarrow> (Inl err, bytesRead + n, reader)
      | (Inr value, n, reader) \<Rightarrow>
      (let bytesRead = bytesRead + n in
      case ReadFull 4 reader of
        (Inl err, n, reader) \<Rightarrow> (Inl err, bytesRead + n, reader)
      | (Inr checksumBytes, n, reader) \<Rightarrow>
      (let bytesRead = bytesRead + n; checksum = Uint32 checksumBytes;
          entry = \<lparr>Timestamp = timestamp, Operation = operation, Key = key, Value = value,
                    Checksum = checksum\<rparr>;
          data = PutUint64 (Timestamp entry);
          data = data @ [Operation entry];
          data = data @ Key entry;
          data = (case Value entry of Some v \<Rightarrow> data @ v | None \<Rightarrow> data);
          calculatedChecksum = ChecksumIEEE data
      in if calculatedChecksum \<noteq> checksum
         then (Inl (ChecksumMismatch checksum calculatedChecksum), bytesRead, reader)
         else (Inr entry, bytesRead, reader)))))))))"

text \<open>
  The loop of \<open>Recovery.RecoverEntries\<close>: \<open>io.EOF\<close> ends the scan, any other error
  skips the attempt and continues with the input left, an entry is appended. (The
  \<open>offset\<close> of the source only feeds the warning it prints.)
\<close>

lemma ReadFull_rest_le: "ReadFull n r = (x, m, r') \<Longrightarrow> length r' \<le> length r"
  by (auto simp: ReadFull_def split: if_splits)

lemma ReadFull_8_rest_less:
  "ReadFull 8 r = (x, m, r') \<Longrightarrow> x \<noteq> Inl EOF \<Longrightarrow> length r' < length r"
  by (auto simp: ReadFull_def split: if_splits)

lemma readEntry_rest_less:
  assumes "readEntry reader = (res, n, reader')" and "res \<noteq> Inl EOF"
  shows "length reader' < length reader"
proof -
  obtain x m r1 where first: "ReadFull 8 reader = (x, m, r1)"
    by (cases "ReadFull 8 reader") auto
  show ?thesis
  proof (cases x)
    case (Inl e)
    with assms first have "res = Inl e" "reader' = r1"
      by (simp_all add: readEntry_def)
    with assms Inl first show ?thesis
      by (auto dest: ReadFull_8_rest_less)
  next
    case (Inr timeBytes)
    with first have less: "length r1 < length reader"
      by (auto dest: ReadFull_8_rest_less)
    from assms(1) first Inr have "length reader' \<le> length r1"
      unfolding readEntry_def Let_def
      by (auto split: prod.splits sum.splits if_splits dest!: ReadFull_rest_le)
    with less show ?thesis by simp
  qed
qed

function recover_loop :: "byte list \<Rightarrow> LogEntry list \<Rightarrow> LogEntry list" where
  "recover_loop reader entries =
     (case readEntry reader of
        (Inl err, bytesRead, reader') \<Rightarrow>
          (if err = EOF then entries else recover_loop reader' entries)
      | (Inr entry, bytesRead, reader') \<Rightarrow> recover_loop reader' (entries @ [entry]))"
  by pat_completeness auto
termination
  by (relation "measure (\<lambda>(reader, entries). length reader)")
     (auto dest: readEntry_rest_less [OF sym])

text \<open>
  The log file as recovery finds it: absent, present but not openable, or its content.
\<close>

datatype log_file = NoFile | Unreadable | Content "byte list"

definition RecoverEntries :: "log_file \<Rightarrow> error + LogEntry list" where
  "RecoverEntries logPath =
     (case logPath of
        NoFile \<Rightarrow> Inr []
      | Unreadable \<Rightarrow> Inl (Errorf ''failed to open log file for recovery'' (Some OsError))
      | Content reader \<Rightarrow> Inr (recover_loop reader []))"

section \<open>The in-memory hash table\<close>

text \<open>
  \<open>for _, char := range key\<close> walks a Go string rune by rune: the language decodes
  UTF-8 and yields \<open>U+FFFD\<close>, one byte wide, for every byte that does not start a
  well-formed encoding. \<open>decoderune\<close> gives the rune at the head of the string and its
  width; \<open>runes\<close> is the sequence the loop sees.
\<close>

definition locb_hicb :: "byte \<Rightarrow> bool" where
  "locb_hicb c = (0x80 \<le> c \<and> c \<le> 0xBF)"

definition RuneError :: "32 word" where
  "RuneError = 0xFFFD"

definition decoderune :: "byte list \<Rightarrow> 32 word \<times> nat" where
  "decoderune s =
     (case s of
        [] \<Rightarrow> (RuneError, 1)
      | c0 # s1 \<Rightarrow>
          if c0 < 0x80 then (ucast c0, 1)
          else if 0xC0 \<le> c0 \<and> c0 < 0xE0 then
            (case s1 of
               c1 # _ \<Rightarrow>
                 if locb_hicb c1 then
                   (let r = push_bit 6 (ucast (c0 AND 0x1F)) OR ucast (c1 AND 0x3F)
                    in if 0x7F < r then (r, 2) else (RuneError, 1))
                 else (RuneError, 1)
             | _ \<Rightarrow> (RuneError, 1))
          else if 0xE0 \<le> c0 \<and> c0 < 0xF0 then
            (case s1 of
               c1 # c2 # _ \<Rightarrow>
                 if locb_hicb c1 \<and> locb_hicb c2 then
                   (let r = push_bit 12 (ucast (c0 AND 0x0F)) OR push_bit 6 (ucast (c1 AND 0x3F))
                              OR ucast (c2 AND 0x3F)
                    in if 0x7FF < r \<and> \<not> (0xD800 \<le> r \<and> r \<le> 0xDFFF) then (r, 3)
                       else (RuneError, 1))
                 else (RuneError, 1)
             | _ \<Rightarrow> (RuneError, 1))
          else if 0xF0 \<le> c0 \<and> c0 < 0xF8 then
            (case s1 of
               c1 # c2 # c3 # _ \<Rightarrow>
                 if locb_hicb c1 \<and> locb_hicb c2 \<and> locb_hicb c3 then
                   (let r = push_bit 18 (ucast (c0 AND 0x07)) OR push_bit 12 (ucast (c1 AND 0x3F))
                              OR push_bit 6 (ucast (c2 AND 0x3F)) OR ucast (c3 AND 0x3F)
                    in if 0xFFFF < r \<and> r \<le> 0x10FFFF then (r, 4) else (RuneError, 1))
                 else (RuneError, 1)
             | _ \<Rightarrow> (RuneError, 1))
          else (RuneError, 1))"

lemma decoderune_width: "decoderune s = (r, w) \<Longrightarrow> 0 < w"
  by (auto simp: decoderune_def Let_def split: list.splits if_splits)

function runes :: "byte list \<Rightarrow> 32 word list" where
  "runes s = (if s = [] then [] else case decoderune s of (r, w) \<Rightarrow> r # runes (drop w s))"
  by pat_completeness auto
termination
  by (relation "measure length") (auto dest: decoderune_width [OF sym])

text \<open>
  A bucket holds a Go \<open>map[string][]byte\<close>: a key is absent (\<open>None\<close>) or bound to a
  slice, which may be \<open>nil\<close>.
\<close>

record Bucket =
  entries :: "byte list \<rightharpoonup> byte list option"

record HashTable =
  buckets :: "Bucket list"
  bucketSize :: int

text \<open>\<open>None\<close> is a panic: \<open>make\<close> with a negative length.\<close>

definition NewHashTable :: "int \<Rightarrow> HashTable option" where
  "NewHashTable numBuckets =
     (if numBuckets < 0 then None
      else Some \<lparr>buckets = replicate (nat numBuckets) \<lparr>entries = Map.empty\<rparr>,
                 bucketSize = numBuckets\<rparr>)"

text \<open>
  \<open>HashTable.hash\<close>: the sum of the key's runes, modulo the bucket count. Go's \<open>%\<close>
  truncates (\<open>smod\<close>) and panics on a zero divisor (\<open>None\<close>). The sum is an \<open>int\<close>
  of 64 bits in Go; a key would need more than \<open>2 ^ 42\<close> bytes to overflow it, so the
  model adds without a bound.
\<close>

definition hash :: "HashTable \<Rightarrow> byte list \<Rightarrow> int option" where
  "hash ht key =
     (let hash = foldl (\<lambda>hash char. hash + sint char) 0 (runes key)
      in if bucketSize ht = 0 then None else Some (hash smod bucketSize ht))"

text \<open>\<open>ht.buckets[bucketIndex]\<close>, which panics out of range.\<close>

definition bucket_at :: "HashTable \<Rightarrow> int \<Rightarrow> Bucket option" where
  "bucket_at ht bucketIndex =
     (if 0 \<le> bucketIndex \<and> bucketIndex < int (length (buckets ht))
      then Some (buckets ht ! nat bucketIndex) else None)"

definition HashTable_Set :: "HashTable \<Rightarrow> byte list \<Rightarrow> byte list option \<Rightarrow> HashTable option" where
  "HashTable_Set ht key val =
     (case hash ht key of
        None \<Rightarrow> None
      | Some bucketIndex \<Rightarrow>
          (case bucket_at ht bucketIndex of
             None \<Rightarrow> None
           | Some bucket \<Rightarrow>
               Some (ht\<lparr>buckets := (buckets ht)
                  [nat bucketIndex := bucket\<lparr>entries := (entries bucket)(key \<mapsto> val)\<rparr>]\<rparr>)))"

text \<open>\<open>HashTable.Get\<close> returns the value and whether the key exists.\<close>

definition HashTable_Get :: "HashTable \<Rightarrow> byte list \<Rightarrow> (byte list option \<times> bool) option" where
  "HashTable_Get ht key =
     (case hash ht key of
        None \<Rightarrow> None
      | Some bucketIndex \<Rightarrow>
          (case bucket_at ht bucketIndex of
             None \<Rightarrow> None
           | Some bucket \<Rightarrow>
               (case entries bucket key of
                  None \<Rightarrow> Some (None, False)
                | Some val \<Rightarrow> Some (val, True))))"

definition HashTable_Delete :: "HashTable \<Rightarrow> byte list \<Rightarrow> (bool \<times> HashTable) option" where
  "HashTable_Delete ht key =
     (case hash ht key of
        None \<Rightarrow> None
      | Some bucketIndex \<Rightarrow>
          (case bucket_at ht bucketIndex of
             None \<Rightarrow> None
           | Some bucket \<Rightarrow>
               (if entries bucket key \<noteq> None
                then Some (True, ht\<lparr>buckets := (buckets ht)
                  [nat bucketIndex := bucket\<lparr>entries := (entries bucket)(key := None)\<rparr>]\<rparr>)
                else Some (False, ht))))"

text \<open>
  \<open>HashTable.Keys\<close> walks the buckets in order and each map in the order the Go runtime
  picks, which the language leaves open: \<open>iter\<close> is that order for a key set.
\<close>

definition HashTable_Keys :: "(byte list set \<Rightarrow> byte list list) \<Rightarrow> HashTable \<Rightarrow> byte list list" where
  "HashTable_Keys iter ht = concat (map (\<lambda>bucket. iter (dom (entries bucket))) (buckets ht))"

definition HashTable_Size :: "HashTable \<Rightarrow> int" where
  "HashTable_Size ht = foldl (\<lambda>count bucket. count + int (card (dom (entries bucket)))) 0 (buckets ht)"

section \<open>The append-only log\<close>

text \<open>
  The log owns the file \<open>database.log\<close>. The model keeps the file's content on disk
  (\<open>disk\<close>), the state of the handle \<open>l.file\<close> (\<open>nil\<close>, open or closed; the field
  \<open>file'\<close>), the error that the \<open>bufio.Writer\<close> \<open>l.writer\<close> has met (\<open>writer_err\<close>), and
  the two counters. A \<open>bufio.Writer\<close> keeps the first error of a write: from then on
  every \<open>Write\<close> and \<open>Flush\<close> returns it without touching the file. As long as there is
  no such error the buffer is empty between calls, because \<open>Append\<close> flushes what it
  writes; the bytes that stay in the buffer after an error are never written. The writer
  writes through the handle it was created with, which is usable exactly when
  \<open>file'\<close> is open. What the operating system does is an input of each operation:
  which step fails, if any.
\<close>

datatype file_handle = NilFile | OpenFile | ClosedFile

record Log =
  disk :: "byte list"
  file' :: file_handle
  writer_err :: "error option"
  currSize :: int
  isCompacted :: bool

datatype newlog_io = NewLogOk | MkdirFails | OpenFails | StatFails

text \<open>\<open>NewLog\<close> on a directory whose \<open>database.log\<close> is absent (\<open>None\<close>) or has a content.\<close>

definition NewLog :: "newlog_io \<Rightarrow> byte list option \<Rightarrow> error + Log" where
  "NewLog io logPath =
     (case io of
        MkdirFails \<Rightarrow> Inl (Errorf ''failed to create log directory'' (Some OsError))
      | OpenFails \<Rightarrow> Inl (Errorf ''failed to open log file'' (Some OsError))
      | StatFails \<Rightarrow> Inl (Errorf ''failed to get log file info'' (Some OsError))
      | NewLogOk \<Rightarrow>
          (let content = (case logPath of None \<Rightarrow> [] | Some bs \<Rightarrow> bs)
           in Inr \<lparr>disk = content, file' = OpenFile, writer_err = None,
                   currSize = int (length content), isCompacted = False\<rparr>))"

text \<open>
  One \<open>Write\<close> of the file by the operating system: it takes all the bytes, or it fails
  after some of them have reached the file. It fails at once on a handle that is not open.
\<close>

datatype write_io = WriteOk | WriteFailsAfter nat

definition file_Write :: "Log \<Rightarrow> write_io \<Rightarrow> byte list \<Rightarrow> error option \<times> Log" where
  "file_Write l io p =
     (if file' l \<noteq> OpenFile then (Some OsError, l)
      else case io of
             WriteOk \<Rightarrow> (None, l\<lparr>disk := disk l @ p\<rparr>)
           | WriteFailsAfter n \<Rightarrow> (Some OsError, l\<lparr>disk := disk l @ take n p\<rparr>))"

text \<open>
  \<open>bufio.Writer.Write\<close> on the empty buffer of 4096 bytes: the error, the bytes now in
  the buffer, and the log. A slice longer than the buffer goes to the file directly.
\<close>

definition writer_Write :: "Log \<Rightarrow> write_io \<Rightarrow> byte list \<Rightarrow> error option \<times> byte list \<times> Log" where
  "writer_Write l io p =
     (case writer_err l of
        Some err \<Rightarrow> (Some err, [], l)
      | None \<Rightarrow>
          if length p > 4096 then
            (case file_Write l io p of
               (Some err, l') \<Rightarrow> (Some err, [], l'\<lparr>writer_err := Some err\<rparr>)
             | (None, l') \<Rightarrow> (None, [], l'))
          else (None, p, l))"

text \<open>\<open>bufio.Writer.Flush\<close> with \<open>buf\<close> in the buffer.\<close>

definition writer_Flush :: "Log \<Rightarrow> write_io \<Rightarrow> byte list \<Rightarrow> error option \<times> Log" where
  "writer_Flush l io buf =
     (case writer_err l of
        Some err \<Rightarrow> (Some err, l)
      | None \<Rightarrow>
          if buf = [] then (None, l)
          else (case file_Write l io buf of
                  (Some err, l') \<Rightarrow> (Some err, l'\<lparr>writer_err := Some err\<rparr>)
                | (None, l') \<Rightarrow> (None, l')))"

text \<open>
  \<open>Log.Append\<close>; \<open>now\<close> is \<open>time.Now().UnixNano()\<close>. The record reaches the file in
  one write, made by \<open>Write\<close> when the record is longer than the buffer and by \<open>Flush\<close>
  otherwise; \<open>io\<close> is the outcome of that write.
\<close>

definition new_entry :: "64 word \<Rightarrow> LogOperation \<Rightarrow> byte list \<Rightarrow> byte list option \<Rightarrow> LogEntry" where
  "new_entry now operation key val =
     (let entry = \<lparr>Timestamp = now, Operation = operation, Key = key, Value = val, Checksum = 0\<rparr>
      in entry\<lparr>Checksum := calculateChecksum entry\<rparr>)"

definition Append ::
  "Log \<Rightarrow> 64 word \<Rightarrow> write_io \<Rightarrow> LogOperation \<Rightarrow> byte list \<Rightarrow> byte list option
     \<Rightarrow> error option \<times> Log" where
  "Append l now io operation key val =
     (let entry = new_entry now operation key val in
      case serializeEntry entry of
        Inl err \<Rightarrow> (Some (Errorf ''failed to serialize log entry'' (Some err)), l)
      | Inr data \<Rightarrow>
          (case writer_Write l io data of
             (Some err, buf, l) \<Rightarrow> (Some (Errorf ''failed to write to log buffer'' (Some err)), l)
           | (None, buf, l) \<Rightarrow>
               (case writer_Flush l io buf of
                  (Some err, l) \<Rightarrow> (Some (Errorf ''failed to flush log to disk'' (Some err)), l)
                | (None, l) \<Rightarrow> (None, l\<lparr>currSize := currSize l + int (length data)\<rparr>))))"

datatype close_io = CloseOk | CloseFileFails

text \<open>
  \<open>Log.Close\<close>. The flush has nothing to write: it returns the writer's error, if there
  is one. Closing a handle that is already closed is an error of \<open>os\<close>.
\<close>

definition Log_Close :: "Log \<Rightarrow> close_io \<Rightarrow> error option \<times> Log" where
  "Log_Close l io =
     (if file' l = NilFile then (None, l)
      else
        case writer_Flush l WriteOk [] of
          (Some err, l) \<Rightarrow> (Some (Errorf ''failed to flush log on close'' (Some err)), l)
        | (None, l) \<Rightarrow>
            if io = CloseFileFails \<or> file' l = ClosedFile
            then (Some OsError, l\<lparr>file' := NilFile\<rparr>)
            else (None, l\<lparr>file' := NilFile\<rparr>))"

datatype compact_io =
    CompactOk | CreateTempFails | FileCloseFails | TempCloseFails
  | RenameFails | ReopenFails | CompactStatFails

text \<open>
  \<open>Log.Compact\<close>. It creates an empty \<open>temp.log\<close>, writes nothing into it, and renames
  it over \<open>database.log\<close>: from the rename on, the log on disk is empty. The flush has
  nothing to write. A handle is closed after \<open>Close\<close> even when \<open>Close\<close> returns an
  error. The new \<open>bufio.Writer\<close> made after the file is reopened has no error. The
  deferred function resets \<open>isCompacted\<close> on every path that set it.
\<close>

definition Compact :: "Log \<Rightarrow> compact_io \<Rightarrow> error option \<times> Log" where
  "Compact l io =
     (if isCompacted l then (None, l)
      else if io = CreateTempFails
      then (Some (Errorf ''failed to create temporary log file'' (Some OsError)), l)
      else
        case writer_Flush l WriteOk [] of
          (Some err, l) \<Rightarrow> (Some (Errorf ''failed to flush log'' (Some err)), l)
        | (None, l) \<Rightarrow>
            if file' l \<noteq> OpenFile
            then (Some (Errorf ''failed to close log file'' (Some OsError)), l)
            else if io = FileCloseFails
            then (Some (Errorf ''failed to close log file'' (Some OsError)),
                  l\<lparr>file' := ClosedFile\<rparr>)
            else if io = TempCloseFails
            then (Some (Errorf ''failed to close temporary log file'' (Some OsError)),
                  l\<lparr>file' := ClosedFile\<rparr>)
            else if io = RenameFails
            then (Some (Errorf ''failed to replace log file'' (Some OsError)),
                  l\<lparr>file' := ClosedFile\<rparr>)
            else if io = ReopenFails
            then (Some (Errorf ''failed to reopen log file'' (Some OsError)),
                  l\<lparr>disk := [], file' := NilFile\<rparr>)
            else if io = CompactStatFails
            then (Some (Errorf ''failed to get log file info'' (Some OsError)),
                  l\<lparr>disk := [], file' := OpenFile, writer_err := None\<rparr>)
            else (None, l\<lparr>disk := [], file' := OpenFile, writer_err := None, currSize := 0\<rparr>))"

section \<open>The database\<close>

record Config =
  NumBuckets :: int
  LogPath :: string
  CompactionInterval :: int
  PersistenceInterval :: int
  AutoRecover :: bool

definition DefaultConfig :: Config where
  "DefaultConfig = \<lparr>NumBuckets = 1024, LogPath = ''./data'',
     CompactionInterval = 10 * 60 * 1000000000, PersistenceInterval = 5 * 1000000000,
     AutoRecover = True\<rparr>"

text \<open>
  \<open>closeChan\<close> is true once the channel has been closed. A function of the database
  returns \<open>None\<close> when it panics.
\<close>

record DB =
  storage :: HashTable
  log :: Log
  config :: Config
  isClosed :: bool
  closeChan :: bool

text \<open>The \<open>for\<close> loop of \<open>DB.recoverFromLog\<close>.\<close>

fun replay :: "HashTable \<Rightarrow> LogEntry list \<Rightarrow> HashTable option" where
  "replay ht [] = Some ht"
| "replay ht (entry # es) =
     (if Operation entry = OperationSet then
        (case HashTable_Set ht (Key entry) (Value entry) of
           None \<Rightarrow> None
         | Some ht' \<Rightarrow> replay ht' es)
      else if Operation entry = OperationDelete then
        (case HashTable_Delete ht (Key entry) of
           None \<Rightarrow> None
         | Some (_, ht') \<Rightarrow> replay ht' es)
      else replay ht es)"

definition recoverFromLog :: "DB \<Rightarrow> log_file \<Rightarrow> (error option \<times> DB) option" where
  "recoverFromLog db logPath =
     (case RecoverEntries logPath of
        Inl err \<Rightarrow> Some (Some err, db)
      | Inr es \<Rightarrow>
          (case replay (storage db) es of
             None \<Rightarrow> None
           | Some ht \<Rightarrow> Some (None, db\<lparr>storage := ht\<rparr>)))"

text \<open>
  \<open>New\<close>. \<open>NewLog\<close> has created the log file when recovery looks for it; \<open>readable\<close>
  says whether recovery can open it.
\<close>

definition New :: "newlog_io \<Rightarrow> bool \<Rightarrow> byte list option \<Rightarrow> Config option \<Rightarrow> (error + DB) option" where
  "New io readable logPath cfg =
     (let config = (case cfg of None \<Rightarrow> DefaultConfig | Some c \<Rightarrow> c) in
      case NewHashTable (NumBuckets config) of
        None \<Rightarrow> None
      | Some store \<Rightarrow>
          (case NewLog io logPath of
             Inl err \<Rightarrow> Some (Inl (NewDatabaseError ''initialization'' [] err))
           | Inr l \<Rightarrow>
               (let db = \<lparr>storage = store, log = l, config = config, isClosed = False,
                          closeChan = False\<rparr>
                in if AutoRecover config then
                     (case recoverFromLog db (if readable then Content (disk l) else Unreadable) of
                        None \<Rightarrow> None
                      | Some (Some err, db) \<Rightarrow> Some (Inl (NewDatabaseError ''recovery'' [] err))
                      | Some (None, db) \<Rightarrow> Some (Inr db))
                   else Some (Inr db))))"

text \<open>\<open>DB.Set\<close>: the error returned (\<open>None\<close> for \<open>nil\<close>) and the database after the call.\<close>

definition DB_Set ::
  "DB \<Rightarrow> 64 word \<Rightarrow> write_io \<Rightarrow> byte list \<Rightarrow> byte list option \<Rightarrow> (error option \<times> DB) option" where
  "DB_Set db now io key val =
     (if isClosed db then Some (Some ErrDatabaseClosed, db)
      else if key = [] then Some (Some ErrEmptyKey, db)
      else if val = None then Some (Some ErrNilValue, db)
      else
        case HashTable_Set (storage db) key val of
          None \<Rightarrow> None
        | Some ht \<Rightarrow>
            (case Append (log db) now io OperationSet key val of
               (Some err, l) \<Rightarrow>
                 (case HashTable_Delete ht key of
                    None \<Rightarrow> None
                  | Some (_, ht') \<Rightarrow>
                      Some (Some (NewDatabaseError ''set'' key err), db\<lparr>storage := ht', log := l\<rparr>))
             | (None, l) \<Rightarrow> Some (None, db\<lparr>storage := ht, log := l\<rparr>)))"

definition DB_Get :: "DB \<Rightarrow> byte list \<Rightarrow> (error + byte list option) option" where
  "DB_Get db key =
     (if isClosed db then Some (Inl ErrDatabaseClosed)
      else if key = [] then Some (Inl ErrEmptyKey)
      else
        case HashTable_Get (storage db) key of
          None \<Rightarrow> None
        | Some (val, exists) \<Rightarrow>
            if \<not> exists then Some (Inl (NewDatabaseError ''get'' key ErrKeyNotFound))
            else Some (Inr val))"

definition DB_Delete ::
  "DB \<Rightarrow> 64 word \<Rightarrow> write_io \<Rightarrow> byte list \<Rightarrow> (error option \<times> DB) option" where
  "DB_Delete db now io key =
     (if isClosed db then Some (Some ErrDatabaseClosed, db)
      else if key = [] then Some (Some ErrEmptyKey, db)
      else
        case HashTable_Get (storage db) key of
          None \<Rightarrow> None
        | Some (_, exists) \<Rightarrow>
            if \<not> exists then Some (Some (NewDatabaseError ''delete'' key ErrKeyNotFound), db)
            else
              (case HashTable_Delete (storage db) key of
                 None \<Rightarrow> None
               | Some (_, ht) \<Rightarrow>
                   (case Append (log db) now io OperationDelete key None of
                      (Some err, l) \<Rightarrow>
                        Some (Some (NewDatabaseError ''delete'' key err), db\<lparr>storage := ht, log := l\<rparr>)
                    | (None, l) \<Rightarrow> Some (None, db\<lparr>storage := ht, log := l\<rparr>))))"

definition DB_Keys :: "(byte list set \<Rightarrow> byte list list) \<Rightarrow> DB \<Rightarrow> byte list list" where
  "DB_Keys iter db = (if isClosed db then [] else HashTable_Keys iter (storage db))"

definition DB_Size :: "DB \<Rightarrow> int" where
  "DB_Size db = (if isClosed db then 0 else HashTable_Size (storage db))"

text \<open>
  \<open>DB.Close\<close>. \<open>close(db.closeChan)\<close> panics on a channel that is already closed, and
  \<open>isClosed\<close> is set only after the log has closed without error.
\<close>

definition DB_Close :: "DB \<Rightarrow> close_io \<Rightarrow> (error option \<times> DB) option" where
  "DB_Close db io =
     (if isClosed db then Some (None, db)
      else if closeChan db then None
      else
        let db = db\<lparr>closeChan := True\<rparr> in
        case Log_Close (log db) io of
          (Some err, l) \<Rightarrow> Some (Some (NewDatabaseError ''close'' [] err), db\<lparr>log := l\<rparr>)
        | (None, l) \<Rightarrow> Some (None, db\<lparr>log := l, isClosed := True\<rparr>))"

text \<open>The compaction that the background task runs on each tick; its error is dropped.\<close>

definition compaction_tick :: "DB \<Rightarrow> compact_io \<Rightarrow> DB" where
  "compaction_tick db io = db\<lparr>log := snd (Compact (log db) io)\<rparr>"

declare runes.simps [simp del] recover_loop.simps [simp del]

section \<open>What the claims speak of\<close>

text \<open>
  The record layout of the specification: timestamp, operation, key length, key, value
  length, value, checksum, the integers little-endian.
\<close>

definition record_layout :: "64 word \<Rightarrow> byte \<Rightarrow> byte list \<Rightarrow> byte list \<Rightarrow> 32 word \<Rightarrow> byte list" where
  "record_layout ts op key v ck =
     PutUint64 ts @ [op] @ PutUint16 (word_of_nat (length key)) @ key
       @ PutUint32 (word_of_nat (length v)) @ v @ PutUint32 ck"

text \<open>The bytes of a value, \<open>nil\<close> having none.\<close>

definition value_bytes :: "byte list option \<Rightarrow> byte list" where
  "value_bytes val = (case val of None \<Rightarrow> [] | Some v \<Rightarrow> v)"

text \<open>Two keys are anagrams when one has the characters of the other, rearranged.\<close>

definition anagrams :: "byte list \<Rightarrow> byte list \<Rightarrow> bool" where
  "anagrams k1 k2 = (mset (runes k1) = mset (runes k2))"

text \<open>
  The bytes that \<open>Append\<close> writes for an entry (none when serialization fails), and the
  log file that holds a sequence of entries.
\<close>

definition record_bytes :: "LogEntry \<Rightarrow> byte list" where
  "record_bytes e = (case serializeEntry e of Inl _ \<Rightarrow> [] | Inr data \<Rightarrow> data)"

definition log_bytes :: "LogEntry list \<Rightarrow> byte list" where
  "log_bytes es = concat (map record_bytes es)"

text \<open>
  A well-formed record: its lengths fit their fields and its checksum is the one
  \<open>calculateChecksum\<close> gives.
\<close>

definition well_formed :: "LogEntry \<Rightarrow> bool" where
  "well_formed e =
     (length (Key e) \<le> 65535 \<and> length (value_bytes (Value e)) < 2 ^ 32
      \<and> Checksum e = calculateChecksum e)"

text \<open>
  What recovery returns for an intact record: the entry, its value \<open>nil\<close> when it has no
  bytes.
\<close>

definition recovered :: "LogEntry \<Rightarrow> LogEntry" where
  "recovered e = e\<lparr>Value := (if value_bytes (Value e) = [] then None else Value e)\<rparr>"

text \<open>
  The offsets of a record's key bytes (after 8 + 1 + 2 bytes) and value bytes (after the
  key and 4 more).
\<close>

definition in_payload :: "LogEntry \<Rightarrow> nat \<Rightarrow> bool" where
  "in_payload e p =
     ((11 \<le> p \<and> p < 11 + length (Key e))
      \<or> (15 + length (Key e) \<le> p
          \<and> p < 15 + length (Key e) + length (value_bytes (Value e))))"

text \<open>
  Four states of a database with four buckets, for the examples. \<open>fresh_db\<close> is what
  \<open>New\<close> returns on an empty directory; \<open>db_with_a\<close> is \<open>fresh_db\<close> after
  \<open>Set("a", "1")\<close> at time 1, the key \<open>a\<close> being in bucket \<open>97 % 4 = 1\<close>;
  \<open>db_without_a\<close> has the index of the first and the log of the second, whose writer
  has met an error; \<open>half_open_db\<close> is \<open>fresh_db\<close> with the channel closed and the log's
  handle \<open>nil\<close>, but \<open>isClosed\<close> still false.
\<close>

definition fresh_db :: DB where
  "fresh_db =
     \<lparr>storage = \<lparr>buckets = [\<lparr>entries = Map.empty\<rparr>, \<lparr>entries = Map.empty\<rparr>,
                             \<lparr>entries = Map.empty\<rparr>, \<lparr>entries = Map.empty\<rparr>],
                  bucketSize = 4\<rparr>,
      log = \<lparr>disk = [], file' = OpenFile, writer_err = None, currSize = 0, isCompacted = False\<rparr>,
      config = DefaultConfig\<lparr>NumBuckets := 4\<rparr>, isClosed = False, closeChan = False\<rparr>"

definition db_with_a :: DB where
  "db_with_a =
     fresh_db\<lparr>storage := \<lparr>buckets = [\<lparr>entries = Map.empty\<rparr>,
                                        \<lparr>entries = [[0x61] \<mapsto> Some [0x31]]\<rparr>,
                                        \<lparr>entries = Map.empty\<rparr>, \<lparr>entries = Map.empty\<rparr>],
                             bucketSize = 4\<rparr>,
              log := \<lparr>disk = record_bytes (new_entry 1 OperationSet [0x61] (Some [0x31])),
                      file' = OpenFile, writer_err = None, currSize = 21,
                      isCompacted = False\<rparr>\<rparr>"

definition half_open_db :: DB where
  "half_open_db = fresh_db\<lparr>log := (log fresh_db)\<lparr>file' := NilFile\<rparr>, closeChan := True\<rparr>"

definition db_without_a :: DB where
  "db_without_a =
     db_with_a\<lparr>storage := storage fresh_db,
               log := (log db_with_a)\<lparr>writer_err := Some OsError\<rparr>\<rparr>"

section \<open>Little-endian fields decode to what was encoded\<close>

lemma byte_slice_bit:
  fixes v :: "'a::len word"
  shows "bit (push_bit k (ucast (ucast (drop_bit k v) :: 8 word)) :: 'a word) n
     \<longleftrightarrow> (k \<le> n \<and> n < k + 8 \<and> n < LENGTH('a) \<and> bit v n)"
  by (auto simp: bit_simps)

lemma byte_slice_bit0:
  fixes v :: "'a::len word"
  shows "bit (ucast (ucast v :: 8 word) :: 'a word) n
     \<longleftrightarrow> (n < 8 \<and> n < LENGTH('a) \<and> bit v n)"
  by (auto simp: bit_simps)

lemma Uint16_PutUint16 [simp]: "Uint16 (PutUint16 v) = v"
  unfolding Uint16_def PutUint16_def
  apply (rule bit_word_eqI)
  apply (simp add: bit_or_iff byte_slice_bit byte_slice_bit0)
  by (auto simp: not_less)

lemma Uint32_PutUint32 [simp]: "Uint32 (PutUint32 v) = v"
  unfolding Uint32_def PutUint32_def
  apply (rule bit_word_eqI)
  apply (simp add: bit_or_iff byte_slice_bit byte_slice_bit0)
  by (auto simp: not_less)

lemma Uint64_PutUint64 [simp]: "Uint64 (PutUint64 v) = v"
  unfolding Uint64_def PutUint64_def
  apply (rule bit_word_eqI)
  apply (simp add: bit_or_iff byte_slice_bit byte_slice_bit0)
  by (auto simp: not_less)

lemma length_PutUint [simp]:
  "length (PutUint16 a) = 2" "length (PutUint32 b) = 4" "length (PutUint64 c) = 8"
  by (simp_all add: PutUint16_def PutUint32_def PutUint64_def)

section \<open>CRC-32 tells apart two inputs that differ in one byte\<close>

lemma crc_shift_bit31: "bit (crc_shift c) 31 = bit c 0"
  by (auto simp: crc_shift_def bit_simps dest: bit_imp_le_length)

lemma crc_shift_drop:
  "drop_bit 1 c = (if bit c 0 then crc_shift c XOR 0xedb88320 else crc_shift c)"
  by (simp add: crc_shift_def xor.assoc)

lemma crc_shift_inj:
  assumes eq: "crc_shift a = crc_shift b"
  shows "a = b"
proof -
  have low: "bit a 0 = bit b 0"
    using crc_shift_bit31 [of a] crc_shift_bit31 [of b] eq by simp
  have rest: "drop_bit 1 a = drop_bit 1 b"
    using crc_shift_drop [of a] crc_shift_drop [of b] eq low by simp
  show "a = b"
  proof (rule bit_word_eqI)
    fix n
    show "bit a n = bit b n"
    proof (cases n)
      case 0
      then show ?thesis using low by simp
    next
      case (Suc m)
      have "bit (drop_bit 1 a) m = bit (drop_bit 1 b) m"
        using rest by simp
      then show ?thesis using Suc by (simp add: bit_drop_bit_eq)
    qed
  qed
qed

lemma crc_shift_funpow_inj: "(crc_shift ^^ k) a = (crc_shift ^^ k) b \<Longrightarrow> a = b"
  by (induction k) (auto dest: crc_shift_inj)

lemma word_xor_cancel_right:
  fixes a b c :: "'a::len word"
  assumes "a XOR c = b XOR c"
  shows "a = b"
proof -
  from assms have "(a XOR c) XOR c = (b XOR c) XOR c" by simp
  then show ?thesis by (simp add: xor.assoc)
qed

lemma word_xor_cancel_left:
  fixes a b c :: "'a::len word"
  shows "c XOR a = c XOR b \<Longrightarrow> a = b"
  using word_xor_cancel_right [of a c b] by (simp add: xor.commute)

lemma ucast_byte_inj:
  assumes eq: "(ucast (v :: byte) :: 32 word) = ucast w"
  shows "v = w"
proof (rule bit_word_eqI)
  fix n
  assume n: "n < LENGTH(8)"
  have "bit (ucast v :: 32 word) n = bit (ucast w :: 32 word) n"
    using eq by simp
  then show "bit v n = bit w n"
    using n by (simp add: bit_ucast_iff)
qed

lemma crc_byte_inj_state: "crc_byte a v = crc_byte b v \<Longrightarrow> a = b"
  unfolding crc_byte_def by (drule crc_shift_funpow_inj) (rule word_xor_cancel_right)

lemma crc_byte_inj_byte: "crc_byte c v = crc_byte c w \<Longrightarrow> v = w"
  unfolding crc_byte_def
  by (drule crc_shift_funpow_inj) (auto dest: word_xor_cancel_left ucast_byte_inj)

lemma foldl_crc_byte_inj: "foldl crc_byte a p = foldl crc_byte b p \<Longrightarrow> a = b"
  by (induction p arbitrary: a b) (auto dest: crc_byte_inj_state)

lemma ChecksumIEEE_one_byte:
  "ChecksumIEEE (p @ v # s) = ChecksumIEEE (p @ w # s) \<Longrightarrow> v = w"
  unfolding ChecksumIEEE_def crc_update_def
  by (auto dest!: foldl_crc_byte_inj crc_byte_inj_byte)

text \<open>The check value of CRC-32: the checksum of the ASCII digits \<open>123456789\<close>.\<close>

lemma funpow_8: "(f ^^ 8) x = f (f (f (f (f (f (f (f x)))))))"
  by (simp add: numeral_eq_Suc)

lemma ChecksumIEEE_check_value:
  "ChecksumIEEE [0x31, 0x32, 0x33, 0x34, 0x35, 0x36, 0x37, 0x38, 0x39] = 0xCBF43926"
  by (simp add: ChecksumIEEE_def crc_update_def crc_byte_def funpow_8 crc_shift_def)

section \<open>Serialization and reading of one record\<close>

lemma serializeEntry_layout:
  "serializeEntry e =
     (if length (Key e) > 65535 then Inl (Errorf ''key is too long'' None)
      else Inr (record_layout (Timestamp e) (Operation e) (Key e) (value_bytes (Value e))
                  (Checksum e)))"
  by (simp add: serializeEntry_def record_layout_def value_bytes_def Let_def
           split: option.splits)

lemma unat_key_len:
  "length key \<le> 65535 \<Longrightarrow> unat (word_of_nat (length key) :: 16 word) = length key"
  by (simp add: unat_of_nat)

lemma unat_value_len:
  "length v < 2 ^ 32 \<Longrightarrow> unat (word_of_nat (length v) :: 32 word) = length v"
  by (simp add: unat_of_nat)

lemma value_len_pos:
  "length v < 2 ^ 32 \<Longrightarrow> (0 < (word_of_nat (length v) :: 32 word)) = (v \<noteq> [])"
  using unat_value_len [of v]
  by (auto simp: word_greater_zero_iff dest: arg_cong [where f = unat])

lemma readEntry_layout:
  assumes "length key \<le> 65535" and "length v < 2 ^ 32"
  shows "readEntry (record_layout ts op key v ck @ rest) =
     (if ChecksumIEEE (PutUint64 ts @ [op] @ key @ v) \<noteq> ck
      then (Inl (ChecksumMismatch ck (ChecksumIEEE (PutUint64 ts @ [op] @ key @ v))),
            int (length (record_layout ts op key v ck)), rest)
      else (Inr \<lparr>Timestamp = ts, Operation = op, Key = key,
                 Value = (if v = [] then None else Some v), Checksum = ck\<rparr>,
            int (length (record_layout ts op key v ck)), rest))"
  using assms
  by (simp add: readEntry_def record_layout_def ReadFull_def Let_def unat_key_len
        unat_value_len value_len_pos)

lemma record_bytes_layout:
  "length (Key e) \<le> 65535 \<Longrightarrow>
   record_bytes e = record_layout (Timestamp e) (Operation e) (Key e) (value_bytes (Value e)) (Checksum e)"
  by (simp add: record_bytes_def serializeEntry_layout)

lemma calculateChecksum_bytes:
  "calculateChecksum e = ChecksumIEEE (PutUint64 (Timestamp e) @ [Operation e] @ Key e @ value_bytes (Value e))"
  by (simp add: calculateChecksum_def value_bytes_def)

lemma readEntry_record_bytes:
  assumes "well_formed e"
  shows "readEntry (record_bytes e @ rest) = (Inr (recovered e), int (length (record_bytes e)), rest)"
proof -
  from assms have k: "length (Key e) \<le> 65535" and v: "length (value_bytes (Value e)) < 2 ^ 32"
    and c: "ChecksumIEEE (PutUint64 (Timestamp e) @ [Operation e] @ Key e @ value_bytes (Value e)) = Checksum e"
    by (simp_all add: well_formed_def calculateChecksum_bytes)
  have "recovered e = \<lparr>Timestamp = Timestamp e, Operation = Operation e, Key = Key e,
      Value = (if value_bytes (Value e) = [] then None else Some (value_bytes (Value e))),
      Checksum = Checksum e\<rparr>"
    by (cases "Value e") (simp_all add: recovered_def value_bytes_def)
  then show ?thesis
    using readEntry_layout [OF k v, of "Timestamp e" "Operation e" "Checksum e" rest] c
    by (simp add: record_bytes_layout [OF k])
qed

lemma readEntry_Nil: "readEntry [] = (Inl EOF, 0, [])"
  by (simp add: readEntry_def ReadFull_def)

lemma recover_loop_Nil: "recover_loop [] acc = acc"
  by (subst recover_loop.simps) (simp add: readEntry_Nil)

lemma recover_loop_record:
  "well_formed e \<Longrightarrow> recover_loop (record_bytes e @ rest) acc = recover_loop rest (acc @ [recovered e])"
  by (subst recover_loop.simps) (simp add: readEntry_record_bytes)

lemma recover_loop_log_bytes:
  "\<forall>e\<in>set es. well_formed e \<Longrightarrow>
   recover_loop (log_bytes es @ rest) acc = recover_loop rest (acc @ map recovered es)"
proof (induction es arbitrary: acc)
  case Nil
  then show ?case by (simp add: log_bytes_def)
next
  case (Cons e es)
  then have "recover_loop (log_bytes es @ rest) (acc @ [recovered e])
      = recover_loop rest ((acc @ [recovered e]) @ map recovered es)"
    by simp
  with Cons.prems show ?case
    using recover_loop_record [of e "log_bytes es @ rest" acc]
    by (simp add: log_bytes_def)
qed

lemma ChecksumIEEE_list_update:
  assumes "i < length xs" and "ChecksumIEEE (xs[i := b]) = ChecksumIEEE xs"
  shows "b = xs ! i"
proof -
  have "xs[i := b] = take i xs @ b # drop (Suc i) xs"
    using assms(1) by (rule upd_conv_take_nth_drop)
  moreover have "xs = take i xs @ xs ! i # drop (Suc i) xs"
    using assms(1) by (rule id_take_nth_drop)
  ultimately have "ChecksumIEEE (take i xs @ b # drop (Suc i) xs)
      = ChecksumIEEE (take i xs @ xs ! i # drop (Suc i) xs)"
    using assms(2) by simp
  then show ?thesis by (rule ChecksumIEEE_one_byte)
qed

lemma flipped_layout:
  assumes p: "(11 \<le> p \<and> p < 11 + length key) \<or> (15 + length key \<le> p \<and> p < 15 + length key + length v)"
    and b: "b \<noteq> record_layout ts op key v ck ! p"
  shows "\<exists>key' v'. (record_layout ts op key v ck)[p := b] = record_layout ts op key' v' ck
      \<and> length key' = length key \<and> length v' = length v
      \<and> ChecksumIEEE (PutUint64 ts @ [op] @ key' @ v') \<noteq> ChecksumIEEE (PutUint64 ts @ [op] @ key @ v)"
  using p
proof
  assume r: "11 \<le> p \<and> p < 11 + length key"
  define j where "j = p - 11"
  have pj: "p = 11 + j" and j: "j < length key" using r by (auto simp: j_def)
  have nth: "record_layout ts op key v ck ! p = key ! j"
    using j by (simp add: record_layout_def pj nth_append)
  have upd: "(record_layout ts op key v ck)[p := b] = record_layout ts op (key[j := b]) v ck"
    using j by (simp add: record_layout_def pj list_update_append)
  have data: "(PutUint64 ts @ [op] @ key @ v)[9 + j := b] = PutUint64 ts @ [op] @ key[j := b] @ v"
    using j by (simp add: list_update_append)
  have "ChecksumIEEE (PutUint64 ts @ [op] @ key[j := b] @ v) \<noteq> ChecksumIEEE (PutUint64 ts @ [op] @ key @ v)"
  proof
    assume "ChecksumIEEE (PutUint64 ts @ [op] @ key[j := b] @ v) = ChecksumIEEE (PutUint64 ts @ [op] @ key @ v)"
    then have "ChecksumIEEE ((PutUint64 ts @ [op] @ key @ v)[9 + j := b]) = ChecksumIEEE (PutUint64 ts @ [op] @ key @ v)"
      by (simp only: data)
    then have "b = (PutUint64 ts @ [op] @ key @ v) ! (9 + j)"
      using j by (intro ChecksumIEEE_list_update) simp_all
    then have "b = key ! j" using j by (simp add: nth_append)
    with b nth show False by simp
  qed
  with upd show ?thesis by (intro exI [of _ "key[j := b]"] exI [of _ v]) simp
next
  assume r: "15 + length key \<le> p \<and> p < 15 + length key + length v"
  define j where "j = p - (15 + length key)"
  have pj: "p = 15 + length key + j" and j: "j < length v" using r by (auto simp: j_def)
  have nth: "record_layout ts op key v ck ! p = v ! j"
    using j by (simp add: record_layout_def pj nth_append)
  have upd: "(record_layout ts op key v ck)[p := b] = record_layout ts op key (v[j := b]) ck"
    using j by (simp add: record_layout_def pj list_update_append)
  have data: "(PutUint64 ts @ [op] @ key @ v)[9 + length key + j := b] = PutUint64 ts @ [op] @ key @ v[j := b]"
    using j by (simp add: list_update_append)
  have "ChecksumIEEE (PutUint64 ts @ [op] @ key @ v[j := b]) \<noteq> ChecksumIEEE (PutUint64 ts @ [op] @ key @ v)"
  proof
    assume "ChecksumIEEE (PutUint64 ts @ [op] @ key @ v[j := b]) = ChecksumIEEE (PutUint64 ts @ [op] @ key @ v)"
    then have "ChecksumIEEE ((PutUint64 ts @ [op] @ key @ v)[9 + length key + j := b]) = ChecksumIEEE (PutUint64 ts @ [op] @ key @ v)"
      by (simp only: data)
    then have "b = (PutUint64 ts @ [op] @ key @ v) ! (9 + length key + j)"
      using j by (intro ChecksumIEEE_list_update) simp_all
    then have "b = v ! j" using j by (simp add: nth_append)
    with b nth show False by simp
  qed
  with upd show ?thesis by (intro exI [of _ key] exI [of _ "v[j := b]"]) simp
qed

lemma recover_loop_flipped:
  assumes wf: "well_formed e" and p: "in_payload e p" and b: "b \<noteq> record_bytes e ! p"
  shows "recover_loop ((record_bytes e)[p := b] @ rest) acc = recover_loop rest acc"
proof -
  from wf have k: "length (Key e) \<le> 65535" and v: "length (value_bytes (Value e)) < 2 ^ 32"
    and c: "ChecksumIEEE (PutUint64 (Timestamp e) @ [Operation e] @ Key e @ value_bytes (Value e)) = Checksum e"
    by (simp_all add: well_formed_def calculateChecksum_bytes)
  note lay = record_bytes_layout [OF k]
  obtain key' v' where
    upd: "(record_bytes e)[p := b] = record_layout (Timestamp e) (Operation e) key' v' (Checksum e)"
    and lk: "length key' = length (Key e)" and lv: "length v' = length (value_bytes (Value e))"
    and ne: "ChecksumIEEE (PutUint64 (Timestamp e) @ [Operation e] @ key' @ v') \<noteq> Checksum e"
    using flipped_layout [of p "Key e" "value_bytes (Value e)" b "Timestamp e" "Operation e" "Checksum e"]
      p b c
    unfolding lay in_payload_def by auto
  have "readEntry ((record_bytes e)[p := b] @ rest) =
      (Inl (ChecksumMismatch (Checksum e) (ChecksumIEEE (PutUint64 (Timestamp e) @ [Operation e] @ key' @ v'))),
       int (length (record_layout (Timestamp e) (Operation e) key' v' (Checksum e))), rest)"
    unfolding upd using readEntry_layout [of key' v' "Timestamp e" "Operation e" "Checksum e" rest] k v lk lv ne
    by simp
  then show ?thesis
    by (subst recover_loop.simps) simp
qed

lemma well_formed_new_entry:
  "length key \<le> 65535 \<Longrightarrow> length (value_bytes val) < 2 ^ 32
     \<Longrightarrow> well_formed (new_entry now op key val)"
  by (simp add: well_formed_def new_entry_def calculateChecksum_def)

lemma log_bytes_append: "log_bytes (xs @ ys) = log_bytes xs @ log_bytes ys"
  by (simp add: log_bytes_def)

lemma log_bytes_Cons: "log_bytes (x # xs) = record_bytes x @ log_bytes xs"
  by (simp add: log_bytes_def)

lemma recover_loop_log_bytes_all:
  "\<forall>e\<in>set es. well_formed e \<Longrightarrow> recover_loop (log_bytes es) acc = acc @ map recovered es"
  using recover_loop_log_bytes [of es "[]" acc] by (simp add: recover_loop_Nil)

text \<open>
  What \<open>Append\<close> puts on disk: the record layout of the specification, with the CRC-32
  of timestamp, operation, key and value as checksum, or nothing when it fails.
\<close>

lemma record_layout_not_Nil [simp]: "record_layout ts op key v ck \<noteq> []"
  by (simp add: record_layout_def PutUint64_def)

lemma Append_record_layout:
  assumes "length key \<le> 65535" and "writer_err l = None" and "file' l = OpenFile"
  shows "Append l now WriteOk op key val =
     (None, l\<lparr>disk := disk l @ record_layout now op key (value_bytes val)
                        (ChecksumIEEE (PutUint64 now @ [op] @ key @ value_bytes val)),
               currSize := currSize l + int (19 + length key + length (value_bytes val))\<rparr>)"
  using assms
  by (simp add: Append_def writer_Write_def writer_Flush_def file_Write_def
        serializeEntry_layout new_entry_def calculateChecksum_bytes record_layout_def Let_def)

lemmas Append_unfold = Append_def writer_Write_def writer_Flush_def file_Write_def

lemma Append_long_key:
  "length key > 65535 \<Longrightarrow>
   Append l now io op key val =
     (Some (Errorf ''failed to serialize log entry'' (Some (Errorf ''key is too long'' None))), l)"
  by (simp add: Append_def serializeEntry_layout new_entry_def Let_def)

text \<open>
  A write that fails leaves the part of the record that reached the file, and the error
  stays in the writer: the next \<open>Append\<close> fails without writing.
\<close>

lemma Append_write_fails:
  assumes "length key \<le> 65535" and "writer_err l = None" and "file' l = OpenFile"
  shows "\<exists>msg. Append l now (WriteFailsAfter n) op key val =
     (Some (Errorf msg (Some OsError)),
      l\<lparr>disk := disk l @ take n (record_bytes (new_entry now op key val)),
        writer_err := Some OsError\<rparr>)"
  using assms
  by (simp add: Append_def writer_Write_def writer_Flush_def file_Write_def record_bytes_def
        serializeEntry_layout new_entry_def Let_def)

lemma Append_after_error:
  assumes "length key \<le> 65535" and "writer_err l = Some err"
  shows "Append l now io op key val = (Some (Errorf ''failed to write to log buffer'' (Some err)), l)"
  using assms
  by (simp add: Append_def writer_Write_def serializeEntry_layout new_entry_def Let_def)

section \<open>Claims about the log format and recovery\<close>

text \<open>
  C4. A log file holds the records of well-formed entries, one after the other. Replacing
  one byte of the key or of the value of one record by a different byte makes recovery
  skip that record, and only that one: it returns what it returns for the intact file,
  in the same order, without the entry of the damaged record.
\<close>

theorem corrupted_payload_byte_skips_one_record:
  assumes wf: "\<forall>x\<in>set (before @ e # after). well_formed x"
    and p: "in_payload e p" and b: "b \<noteq> record_bytes e ! p"
  shows "RecoverEntries (Content (log_bytes (before @ e # after)))
           = Inr (map recovered before @ recovered e # map recovered after)
       \<and> RecoverEntries (Content (log_bytes before @ (record_bytes e)[p := b] @ log_bytes after))
           = Inr (map recovered before @ map recovered after)"
proof -
  from wf have wb: "\<forall>x\<in>set before. well_formed x" and we: "well_formed e"
    and wa: "\<forall>x\<in>set after. well_formed x"
    by simp_all
  have intact: "recover_loop (log_bytes (before @ e # after)) []
      = map recovered before @ recovered e # map recovered after"
    using recover_loop_log_bytes_all [OF wf, of "[]"] by simp
  have "recover_loop (log_bytes before @ (record_bytes e)[p := b] @ log_bytes after) []
      = recover_loop ((record_bytes e)[p := b] @ log_bytes after) (map recovered before)"
    using recover_loop_log_bytes [OF wb, of _ "[]"] by simp
  also have "\<dots> = recover_loop (log_bytes after) (map recovered before)"
    using we p b by (rule recover_loop_flipped)
  also have "\<dots> = map recovered before @ map recovered after"
    using wa by (rule recover_loop_log_bytes_all)
  finally show ?thesis
    using intact by (simp add: RecoverEntries_def)
qed

theorem corrupted_payload_byte_skips_one_record_witness:
  "well_formed (new_entry 1 OperationSet [0x61] (Some [0x31]))
   \<and> well_formed (new_entry 2 OperationSet [0x62] (Some [0x32]))
   \<and> well_formed (new_entry 3 OperationDelete [0x61] None)
   \<and> in_payload (new_entry 2 OperationSet [0x62] (Some [0x32])) 11
   \<and> 0x63 \<noteq> record_bytes (new_entry 2 OperationSet [0x62] (Some [0x32])) ! 11
   \<and> RecoverEntries (Content (log_bytes [new_entry 1 OperationSet [0x61] (Some [0x31])]
        @ (record_bytes (new_entry 2 OperationSet [0x62] (Some [0x32])))[11 := 0x63]
        @ log_bytes [new_entry 3 OperationDelete [0x61] None]))
      = Inr [recovered (new_entry 1 OperationSet [0x61] (Some [0x31])),
             recovered (new_entry 3 OperationDelete [0x61] None)]"
proof -
  have w1: "well_formed (new_entry 1 OperationSet [0x61] (Some [0x31]))"
    and w2: "well_formed (new_entry 2 OperationSet [0x62] (Some [0x32]))"
    and w3: "well_formed (new_entry 3 OperationDelete [0x61] None)"
    by (simp_all add: well_formed_new_entry value_bytes_def)
  then have wf: "\<forall>x\<in>set ([new_entry 1 OperationSet [0x61] (Some [0x31])]
        @ new_entry 2 OperationSet [0x62] (Some [0x32])
        # [new_entry 3 OperationDelete [0x61] None]). well_formed x"
    by simp
  have p: "in_payload (new_entry 2 OperationSet [0x62] (Some [0x32])) 11"
    by (simp add: in_payload_def new_entry_def)
  have b: "0x63 \<noteq> record_bytes (new_entry 2 OperationSet [0x62] (Some [0x32])) ! 11"
    by (simp add: record_bytes_layout record_layout_def new_entry_def nth_append)
  show ?thesis
    using corrupted_payload_byte_skips_one_record [OF wf p b] w1 w2 w3 p b by simp
qed

text \<open>
  C5, as amended. For an entry whose key has at most 65535 bytes, whose value has fewer
  than \<open>2 ^ 32\<close> bytes and whose checksum is the one \<open>calculateChecksum\<close> gives,
  serialization succeeds and reading the bytes back returns the entry with the same
  timestamp, operation, key, value bytes and checksum, the checksum validating; a value
  without bytes is read back as \<open>nil\<close>.
\<close>

theorem encode_decode_roundtrip:
  assumes "well_formed e"
  shows "serializeEntry e = Inr (record_bytes e)
       \<and> readEntry (record_bytes e) = (Inr (recovered e), int (length (record_bytes e)), [])
       \<and> Timestamp (recovered e) = Timestamp e \<and> Operation (recovered e) = Operation e
       \<and> Key (recovered e) = Key e \<and> value_bytes (Value (recovered e)) = value_bytes (Value e)
       \<and> Checksum (recovered e) = Checksum e
       \<and> calculateChecksum (recovered e) = Checksum (recovered e)"
proof -
  from assms have k: "length (Key e) \<le> 65535" and c: "Checksum e = calculateChecksum e"
    by (simp_all add: well_formed_def)
  have ser: "serializeEntry e = Inr (record_bytes e)"
    using k by (simp add: record_bytes_def serializeEntry_layout)
  have rd: "readEntry (record_bytes e) = (Inr (recovered e), int (length (record_bytes e)), [])"
    using readEntry_record_bytes [OF assms, of "[]"] by simp
  have "calculateChecksum (recovered e) = calculateChecksum e"
    by (simp add: calculateChecksum_bytes recovered_def value_bytes_def)
  with ser rd c show ?thesis
    by (simp add: recovered_def value_bytes_def)
qed

theorem encode_decode_roundtrip_witness:
  "well_formed (new_entry 7 OperationSet [0x61] (Some [0x31]))
   \<and> readEntry (record_bytes (new_entry 7 OperationSet [0x61] (Some [0x31])))
       = (Inr (new_entry 7 OperationSet [0x61] (Some [0x31])),
          int (length (record_bytes (new_entry 7 OperationSet [0x61] (Some [0x31])))), [])"
proof -
  have wf: "well_formed (new_entry 7 OperationSet [0x61] (Some [0x31]))"
    by (simp add: well_formed_new_entry value_bytes_def)
  have "recovered (new_entry 7 OperationSet [0x61] (Some [0x31])) = new_entry 7 OperationSet [0x61] (Some [0x31])"
    by (simp add: recovered_def new_entry_def value_bytes_def)
  then show ?thesis
    using encode_decode_roundtrip [OF wf] wf by simp
qed

text \<open>
  C5 as stated fails: an entry whose key has 65536 bytes is not serialized at all, and an
  entry whose value has \<open>2 ^ 32\<close> bytes is serialized but not read back.
\<close>

theorem roundtrip_fails_for_long_key_and_huge_value:
  "serializeEntry (new_entry 0 OperationSet (replicate 65536 0x61) (Some [0x31]))
     = Inl (Errorf ''key is too long'' None)
   \<and> fst (readEntry (record_bytes (new_entry 0 OperationSet [0x61] (Some (replicate 4294967296 0)))))
     \<noteq> Inr (new_entry 0 OperationSet [0x61] (Some (replicate 4294967296 0)))"
proof -
  have long: "serializeEntry (new_entry 0 OperationSet (replicate 65536 0x61) (Some [0x31]))
     = Inl (Errorf ''key is too long'' None)"
    by (simp add: serializeEntry_layout new_entry_def)
  have "Uint32 (replicate 4 0) = 0"
    by (simp add: Uint32_def numeral_eq_Suc)
  then have huge: "fst (readEntry (record_bytes (new_entry 0 OperationSet [0x61] (Some (replicate 4294967296 0)))))
     \<noteq> Inr (new_entry 0 OperationSet [0x61] (Some (replicate 4294967296 0)))"
    by (simp add: record_bytes_layout record_layout_def value_bytes_def new_entry_def
          readEntry_def ReadFull_def Let_def PutUint16_def Uint16_def min_def)
  from long huge show ?thesis by simp
qed

text \<open>
  C6 at a value of \<open>2 ^ 32\<close> bytes: the record is written with the value length field
  \<open>0\<close>, followed by all the value bytes.
\<close>

theorem huge_value_length_field_wraps:
  "serializeEntry (new_entry 0 OperationSet [0x61] (Some (replicate 4294967296 0)))
     = Inr (PutUint64 0 @ [1] @ [1, 0] @ [0x61] @ [0, 0, 0, 0] @ replicate 4294967296 0
            @ PutUint32 (Checksum (new_entry 0 OperationSet [0x61] (Some (replicate 4294967296 0)))))"
  by (simp add: serializeEntry_def PutUint16_def PutUint32_def OperationSet_def new_entry_def
        Let_def)

section \<open>The shard of a key\<close>

lemma foldl_add_sint:
  "foldl (\<lambda>hash char. hash + sint char) a rs = a + sum_list (map sint (rs :: 32 word list))"
  by (induction rs arbitrary: a) simp_all

lemma hash_sum_list:
  "hash ht key =
     (if bucketSize ht = 0 then None
      else Some (sum_list (map sint (runes key)) smod bucketSize ht))"
  by (simp add: hash_def foldl_add_sint)

lemma hash_anagrams:
  assumes "anagrams k1 k2"
  shows "hash ht k1 = hash ht k2"
proof -
  from assms have "mset (map sint (runes k1)) = mset (map sint (runes k2))"
    by (simp add: anagrams_def)
  then have "sum_mset (mset (map sint (runes k1))) = sum_mset (mset (map sint (runes k2)))"
    by simp
  then have "sum_list (map sint (runes k1)) = sum_list (map sint (runes k2))"
    by (simp only: sum_mset_sum_list)
  then show ?thesis by (simp add: hash_sum_list)
qed

lemma runes_ascii_Cons: "c < 0x80 \<Longrightarrow> runes (c # s) = ucast c # runes s"
  by (subst runes.simps) (simp add: decoderune_def)

lemma runes_Nil: "runes [] = []"
  by (subst runes.simps) simp

lemma hash_fresh_a: "bucketSize ht = 4 \<Longrightarrow> hash ht [0x61] = Some 1"
  by (simp add: hash_def runes_ascii_Cons runes_Nil smod_int_alt_def)

text \<open>
  C9, as amended. The shard of a key is the sum of its character codes modulo the number
  of buckets, so two keys that are anagrams of each other are always in the same shard.
\<close>

theorem hash_is_rune_sum:
  "hash ht key =
     (if bucketSize ht = 0 then None
      else Some (sum_list (map sint (runes key)) smod bucketSize ht))
   \<and> (anagrams k1 k2 \<longrightarrow> hash ht k1 = hash ht k2)"
  using hash_sum_list hash_anagrams by blast

theorem hash_is_rune_sum_witness:
  "anagrams [0x61, 0x62] [0x62, 0x61] \<and> [0x61, 0x62] \<noteq> [0x62, 0x61 :: byte]
   \<and> hash (storage fresh_db) [0x61, 0x62] = hash (storage fresh_db) [0x62, 0x61]"
proof -
  have a: "anagrams [0x61, 0x62] [0x62, 0x61]"
    by (simp add: anagrams_def runes_ascii_Cons runes_Nil)
  show ?thesis
    using hash_is_rune_sum [of "storage fresh_db" "[]" "[0x61, 0x62]" "[0x62, 0x61]"] a
    by simp
qed

text \<open>
  C9 as stated fails: there are no two anagrams that \<open>hash\<close> sends to different shards.
\<close>

theorem no_anagrams_in_different_shards:
  "\<not> (\<exists>ht k1 k2. k1 \<noteq> k2 \<and> anagrams k1 k2 \<and> hash ht k1 \<noteq> hash ht k2)"
  using hash_anagrams by blast

section \<open>Claims about the database\<close>

lemma hash_buckets_update [simp]: "hash (ht\<lparr>buckets := bs\<rparr>) key = hash ht key"
  by (simp add: hash_def)

lemma HashTable_Get_after_Set:
  "HashTable_Set ht key val = Some ht' \<Longrightarrow> HashTable_Get ht' key = Some (val, True)"
  by (auto simp: HashTable_Set_def HashTable_Get_def bucket_at_def
           split: option.splits if_splits)

lemma HashTable_Get_after_Delete:
  "HashTable_Delete ht key = Some (removed, ht') \<Longrightarrow> HashTable_Get ht' key = Some (None, False)"
  by (auto simp: HashTable_Delete_def HashTable_Get_def bucket_at_def
           split: option.splits if_splits)

lemma DB_Set_success:
  assumes "DB_Set db now io k v = Some (None, db1)"
  shows "\<not> isClosed db1 \<and> k \<noteq> [] \<and> HashTable_Set (storage db) k v = Some (storage db1)"
  using assms
  by (auto simp: DB_Set_def split: if_splits option.splits prod.splits)

lemma DB_Delete_success:
  assumes "DB_Delete db now io k = Some (None, db2)"
  shows "\<not> isClosed db2 \<and> k \<noteq> []
     \<and> (\<exists>removed. HashTable_Delete (storage db) k = Some (removed, storage db2))"
  using assms
  by (auto simp: DB_Delete_def split: if_splits option.splits prod.splits)

text \<open>
  C7. After \<open>Set(k, v)\<close> has succeeded, \<open>Get(k)\<close> returns \<open>v\<close> and no error; after
  \<open>Delete(k)\<close> has succeeded, \<open>Get(k)\<close> returns the key-not-found error; and on an open
  database \<open>Set\<close> with the empty key returns \<open>ErrEmptyKey\<close> and leaves the database, so
  also its size, as it was.
\<close>

theorem basic_crud:
  "(DB_Set db now io k v = Some (None, db1) \<longrightarrow> DB_Get db1 k = Some (Inr v))
   \<and> (DB_Delete db now io k = Some (None, db2)
        \<longrightarrow> DB_Get db2 k = Some (Inl (NewDatabaseError ''get'' k ErrKeyNotFound)))
   \<and> (\<not> isClosed db \<longrightarrow> DB_Set db now io [] v = Some (Some ErrEmptyKey, db))"
proof (intro conjI impI)
  assume "DB_Set db now io k v = Some (None, db1)"
  then have "\<not> isClosed db1" "k \<noteq> []" "HashTable_Get (storage db1) k = Some (v, True)"
    by (auto dest!: DB_Set_success dest: HashTable_Get_after_Set)
  then show "DB_Get db1 k = Some (Inr v)"
    by (simp add: DB_Get_def)
next
  assume "DB_Delete db now io k = Some (None, db2)"
  then have "\<not> isClosed db2" "k \<noteq> []" "HashTable_Get (storage db2) k = Some (None, False)"
    by (auto dest!: DB_Delete_success dest: HashTable_Get_after_Delete)
  then show "DB_Get db2 k = Some (Inl (NewDatabaseError ''get'' k ErrKeyNotFound))"
    by (simp add: DB_Get_def)
next
  assume "\<not> isClosed db"
  then show "DB_Set db now io [] v = Some (Some ErrEmptyKey, db)"
    by (simp add: DB_Set_def)
qed

lemma serialize_a: "serializeEntry (new_entry now op [0x61] val) = Inr (record_bytes (new_entry now op [0x61] val))"
  by (simp add: record_bytes_def serializeEntry_layout new_entry_def)

lemma length_record_bytes:
  "length key \<le> 65535 \<Longrightarrow>
   length (record_bytes (new_entry now op key val)) = 19 + length key + length (value_bytes val)"
  by (simp add: record_bytes_layout record_layout_def new_entry_def)

lemma record_bytes_new_entry_not_Nil [simp]:
  "length key \<le> 65535 \<Longrightarrow> record_bytes (new_entry now op key val) \<noteq> []"
  using length_record_bytes [of key now op val] by auto

lemma length_record_a1: "length (record_bytes (new_entry now op [0x61] (Some [x]))) = 21"
  by (simp add: record_bytes_layout record_layout_def new_entry_def value_bytes_def)

lemma Set_fresh_db:
  "DB_Set fresh_db 1 WriteOk [0x61] (Some [0x31]) = Some (None, db_with_a)"
  by (simp add: DB_Set_def fresh_db_def db_with_a_def HashTable_Set_def hash_fresh_a
        bucket_at_def Append_unfold serialize_a
        length_record_bytes value_bytes_def length_record_a1 Let_def)

lemma Get_db_with_a: "DB_Get db_with_a [0x61] = Some (Inr (Some [0x31]))"
  by (simp add: DB_Get_def db_with_a_def fresh_db_def HashTable_Get_def hash_fresh_a bucket_at_def)

lemma Get_db_without_a:
  "DB_Get db_without_a [0x61] = Some (Inl (NewDatabaseError ''get'' [0x61] ErrKeyNotFound))"
  by (simp add: DB_Get_def db_without_a_def db_with_a_def fresh_db_def HashTable_Get_def
        hash_fresh_a bucket_at_def)

lemma Delete_db_with_a_fails:
  "DB_Delete db_with_a 2 (WriteFailsAfter 0) [0x61]
     = Some (Some (NewDatabaseError ''delete'' [0x61]
                     (Errorf ''failed to flush log to disk'' (Some OsError))), db_without_a)"
  by (simp add: DB_Delete_def db_with_a_def db_without_a_def fresh_db_def HashTable_Get_def
        HashTable_Delete_def hash_fresh_a bucket_at_def Append_unfold serialize_a
        length_record_bytes value_bytes_def Let_def)

lemma storage_without_a_differs: "storage db_without_a \<noteq> storage db_with_a"
  by (auto simp: db_without_a_def db_with_a_def fresh_db_def dest: fun_cong [where x = "[0x61]"])

theorem basic_crud_witness:
  "DB_Set fresh_db 1 WriteOk [0x61] (Some [0x31]) = Some (None, db_with_a)
   \<and> DB_Get db_with_a [0x61] = Some (Inr (Some [0x31]))
   \<and> DB_Delete db_with_a 2 WriteOk [0x61]
       = Some (None, db_without_a\<lparr>log := \<lparr>disk = disk (log db_with_a)
                  @ record_bytes (new_entry 2 OperationDelete [0x61] None),
                file' = OpenFile, writer_err = None, currSize = 41,
                isCompacted = False\<rparr>\<rparr>)
   \<and> DB_Get (db_without_a\<lparr>log := \<lparr>disk = disk (log db_with_a)
                  @ record_bytes (new_entry 2 OperationDelete [0x61] None),
                file' = OpenFile, writer_err = None, currSize = 41,
                isCompacted = False\<rparr>\<rparr>) [0x61]
       = Some (Inl (NewDatabaseError ''get'' [0x61] ErrKeyNotFound))
   \<and> \<not> isClosed fresh_db
   \<and> DB_Set fresh_db 1 WriteOk [] (Some [0x31]) = Some (Some ErrEmptyKey, fresh_db)"
proof -
  have del: "DB_Delete db_with_a 2 WriteOk [0x61]
       = Some (None, db_without_a\<lparr>log := \<lparr>disk = disk (log db_with_a)
                  @ record_bytes (new_entry 2 OperationDelete [0x61] None),
                file' = OpenFile, writer_err = None, currSize = 41,
                isCompacted = False\<rparr>\<rparr>)"
    by (simp add: DB_Delete_def db_with_a_def db_without_a_def fresh_db_def HashTable_Get_def
        HashTable_Delete_def hash_fresh_a bucket_at_def Append_unfold serialize_a
        length_record_bytes value_bytes_def Let_def
        length_record_bytes value_bytes_def)
  have op: "\<not> isClosed fresh_db"
    by (simp add: fresh_db_def)
  show ?thesis
    using basic_crud [of fresh_db 1 WriteOk "[0x61]" "Some [0x31]" db_with_a]
      basic_crud [of db_with_a 2 WriteOk "[0x61]" "Some [0x31]" _
        "db_without_a\<lparr>log := \<lparr>disk = disk (log db_with_a)
                  @ record_bytes (new_entry 2 OperationDelete [0x61] None),
                file' = OpenFile, writer_err = None, currSize = 41,
                isCompacted = False\<rparr>\<rparr>"]
      Set_fresh_db del op
    by simp
qed

text \<open>
  C2 at a failing input. The database holds \<open>a = "1"\<close> and the flush of the log fails.
  \<open>Set("a", "2")\<close> rolls back by deleting the key, and \<open>Delete("a")\<close> does not roll
  back: after either call the key is gone, where the claim has it keep the value \<open>"1"\<close>.
\<close>

theorem failed_append_changes_the_index:
  "DB_Get db_with_a [0x61] = Some (Inr (Some [0x31]))
   \<and> DB_Set db_with_a 2 (WriteFailsAfter 0) [0x61] (Some [0x32])
       = Some (Some (NewDatabaseError ''set'' [0x61]
                       (Errorf ''failed to flush log to disk'' (Some OsError))), db_without_a)
   \<and> DB_Delete db_with_a 2 (WriteFailsAfter 0) [0x61]
       = Some (Some (NewDatabaseError ''delete'' [0x61]
                       (Errorf ''failed to flush log to disk'' (Some OsError))), db_without_a)
   \<and> DB_Get db_without_a [0x61] = Some (Inl (NewDatabaseError ''get'' [0x61] ErrKeyNotFound))
   \<and> storage db_without_a \<noteq> storage db_with_a"
proof -
  have "DB_Set db_with_a 2 (WriteFailsAfter 0) [0x61] (Some [0x32])
       = Some (Some (NewDatabaseError ''set'' [0x61]
                       (Errorf ''failed to flush log to disk'' (Some OsError))), db_without_a)"
    by (simp add: DB_Set_def db_with_a_def db_without_a_def fresh_db_def HashTable_Set_def
        HashTable_Delete_def hash_fresh_a bucket_at_def Append_unfold serialize_a
        length_record_bytes value_bytes_def Let_def)
  then show ?thesis
    using Get_db_with_a Delete_db_with_a_fails Get_db_without_a storage_without_a_differs
    by simp
qed

lemma recovered_new_entry_a:
  "recovered (new_entry now op key (Some [x])) = new_entry now op key (Some [x])"
  by (simp add: recovered_def new_entry_def value_bytes_def)

lemma RecoverEntries_log_with_a:
  "RecoverEntries (Content (record_bytes (new_entry 1 OperationSet [0x61] (Some [0x31]))))
     = Inr [new_entry 1 OperationSet [0x61] (Some [0x31])]"
proof -
  have "well_formed (new_entry 1 OperationSet [0x61] (Some [0x31]))"
    by (simp add: well_formed_new_entry value_bytes_def)
  then show ?thesis
    using recover_loop_record [of "new_entry 1 OperationSet [0x61] (Some [0x31])" "[]" "[]"]
    by (simp add: RecoverEntries_def recover_loop_Nil recovered_new_entry_a)
qed

lemma replay_log_with_a:
  "replay (storage fresh_db) [new_entry 1 OperationSet [0x61] (Some [0x31])] = Some (storage db_with_a)"
  by (simp add: fresh_db_def db_with_a_def new_entry_def HashTable_Set_def hash_fresh_a bucket_at_def)

text \<open>
  C3 at a failing input. \<open>Set("a", "1")\<close> succeeds and \<open>Delete("a")\<close> fails in the log.
  The log then holds the one Set record, whose replay gives an index with \<open>a\<close>, and
  the index of the database has no \<open>a\<close>.
\<close>

theorem failed_delete_breaks_replay_equivalence:
  "DB_Set fresh_db 1 WriteOk [0x61] (Some [0x31]) = Some (None, db_with_a)
   \<and> DB_Delete db_with_a 2 (WriteFailsAfter 0) [0x61]
       = Some (Some (NewDatabaseError ''delete'' [0x61]
                       (Errorf ''failed to flush log to disk'' (Some OsError))), db_without_a)
   \<and> RecoverEntries (Content (disk (log db_without_a)))
       = Inr [new_entry 1 OperationSet [0x61] (Some [0x31])]
   \<and> replay (storage fresh_db) [new_entry 1 OperationSet [0x61] (Some [0x31])]
       = Some (storage db_with_a)
   \<and> storage db_without_a \<noteq> storage db_with_a"
proof -
  have "disk (log db_without_a) = record_bytes (new_entry 1 OperationSet [0x61] (Some [0x31]))"
    by (simp add: db_without_a_def db_with_a_def)
  then show ?thesis
    using Set_fresh_db Delete_db_with_a_fails RecoverEntries_log_with_a replay_log_with_a
      storage_without_a_differs
    by simp
qed

lemma New_on_log:
  "New NewLogOk True (Some bs) (Some (DefaultConfig\<lparr>NumBuckets := 4\<rparr>)) =
     (case replay (storage fresh_db) (recover_loop bs []) of
        None \<Rightarrow> None
      | Some ht \<Rightarrow> Some (Inr (fresh_db\<lparr>storage := ht,
          log := \<lparr>disk = bs, file' = OpenFile, writer_err = None,
                  currSize = int (length bs), isCompacted = False\<rparr>\<rparr>)))"
  by (simp add: New_def NewHashTable_def NewLog_def recoverFromLog_def RecoverEntries_def
        DefaultConfig_def fresh_db_def numeral_eq_Suc Let_def split: option.splits)

text \<open>
  C1 at a failing input. The database holds \<open>a = "1"\<close>, and starting from its log
  gives that database back. \<open>Compact\<close> succeeds and leaves an empty log; starting from
  the compacted log gives an empty database, in which \<open>a\<close> is not found.
\<close>

theorem compaction_loses_the_index:
  "New NewLogOk True (Some (disk (log db_with_a))) (Some (config db_with_a)) = Some (Inr db_with_a)
   \<and> Compact (log db_with_a) CompactOk = (None, log fresh_db)
   \<and> compaction_tick db_with_a CompactOk = db_with_a\<lparr>log := log fresh_db\<rparr>
   \<and> New NewLogOk True (Some (disk (log (compaction_tick db_with_a CompactOk))))
        (Some (config db_with_a)) = Some (Inr fresh_db)
   \<and> DB_Get db_with_a [0x61] = Some (Inr (Some [0x31]))
   \<and> DB_Get fresh_db [0x61] = Some (Inl (NewDatabaseError ''get'' [0x61] ErrKeyNotFound))"
proof -
  have c: "Compact (log db_with_a) CompactOk = (None, log fresh_db)"
    by (simp add: Compact_def writer_Flush_def db_with_a_def fresh_db_def)
  have cfg: "config db_with_a = DefaultConfig\<lparr>NumBuckets := 4\<rparr>"
    by (simp add: db_with_a_def fresh_db_def)
  have d: "disk (log db_with_a) = record_bytes (new_entry 1 OperationSet [0x61] (Some [0x31]))"
    by (simp add: db_with_a_def)
  have rl: "recover_loop (record_bytes (new_entry 1 OperationSet [0x61] (Some [0x31]))) []
      = [new_entry 1 OperationSet [0x61] (Some [0x31])]"
    using RecoverEntries_log_with_a by (simp add: RecoverEntries_def)
  have n1: "New NewLogOk True (Some (disk (log db_with_a))) (Some (config db_with_a)) = Some (Inr db_with_a)"
    unfolding cfg d New_on_log rl replay_log_with_a
    by (simp add: db_with_a_def length_record_a1 fresh_db_def)
  have n2: "New NewLogOk True (Some []) (Some (config db_with_a)) = Some (Inr fresh_db)"
    unfolding cfg New_on_log by (simp add: recover_loop_Nil fresh_db_def)
  have g: "DB_Get fresh_db [0x61] = Some (Inl (NewDatabaseError ''get'' [0x61] ErrKeyNotFound))"
    by (simp add: DB_Get_def fresh_db_def HashTable_Get_def hash_fresh_a bucket_at_def)
  show ?thesis
    using c n1 n2 g Get_db_with_a
    by (simp add: compaction_tick_def fresh_db_def)
qed

text \<open>
  When \<open>Close\<close> has returned without error, the database is closed for good: \<open>Set\<close>,
  \<open>Get\<close> and \<open>Delete\<close> return \<open>ErrDatabaseClosed\<close>, \<open>Keys\<close> returns the empty
  sequence, \<open>Size\<close> returns 0, and \<open>Close\<close> again returns without error.
\<close>

theorem closed_database_rejects_calls:
  assumes "DB_Close db io = Some (None, db')"
  shows "DB_Set db' now aio k v = Some (Some ErrDatabaseClosed, db')
       \<and> DB_Get db' k = Some (Inl ErrDatabaseClosed)
       \<and> DB_Delete db' now aio k = Some (Some ErrDatabaseClosed, db')
       \<and> DB_Keys iter db' = [] \<and> DB_Size db' = 0
       \<and> DB_Close db' io' = Some (None, db')"
proof -
  from assms have "isClosed db'"
    by (auto simp: DB_Close_def Let_def split: if_splits prod.splits option.splits)
  then show ?thesis
    by (simp add: DB_Set_def DB_Get_def DB_Delete_def DB_Keys_def DB_Size_def DB_Close_def)
qed

theorem closed_database_rejects_calls_witness:
  "DB_Close fresh_db CloseOk
     = Some (None, fresh_db\<lparr>log := (log fresh_db)\<lparr>file' := NilFile\<rparr>, isClosed := True,
                            closeChan := True\<rparr>)
   \<and> DB_Get (fresh_db\<lparr>log := (log fresh_db)\<lparr>file' := NilFile\<rparr>, isClosed := True,
                       closeChan := True\<rparr>) [0x61] = Some (Inl ErrDatabaseClosed)
   \<and> DB_Close (fresh_db\<lparr>log := (log fresh_db)\<lparr>file' := NilFile\<rparr>, isClosed := True,
                         closeChan := True\<rparr>) CloseOk
     = Some (None, fresh_db\<lparr>log := (log fresh_db)\<lparr>file' := NilFile\<rparr>, isClosed := True,
                            closeChan := True\<rparr>)"
proof -
  have c: "DB_Close fresh_db CloseOk
     = Some (None, fresh_db\<lparr>log := (log fresh_db)\<lparr>file' := NilFile\<rparr>, isClosed := True,
                            closeChan := True\<rparr>)"
    by (simp add: DB_Close_def Log_Close_def writer_Flush_def fresh_db_def Let_def)
  show ?thesis
    using closed_database_rejects_calls [OF c, of 0 WriteOk "[0x61]" None "\<lambda>_. []" CloseOk] c
    by simp
qed

text \<open>
  C8 at a failing input. \<open>Close\<close> closes the channel, then the log, and sets
  \<open>isClosed\<close> last; when closing the log fails it returns in between. That happens
  when the operating system fails to close the file, and also with no failure of its
  own after a compaction whose rename failed, which has left the log's handle closed.
  The database is then still open: \<open>Get\<close> answers from the index instead of returning
  \<open>ErrDatabaseClosed\<close>, and the second \<open>Close\<close> panics on the channel that is already
  closed.
\<close>

theorem failed_close_leaves_database_open:
  "compaction_tick fresh_db RenameFails = fresh_db\<lparr>log := (log fresh_db)\<lparr>file' := ClosedFile\<rparr>\<rparr>
   \<and> DB_Close (fresh_db\<lparr>log := (log fresh_db)\<lparr>file' := ClosedFile\<rparr>\<rparr>) CloseOk
     = Some (Some (NewDatabaseError ''close'' [] OsError), half_open_db)
   \<and> DB_Close fresh_db CloseFileFails
     = Some (Some (NewDatabaseError ''close'' [] OsError), half_open_db)
   \<and> DB_Get half_open_db [0x61] = Some (Inl (NewDatabaseError ''get'' [0x61] ErrKeyNotFound))
   \<and> DB_Close half_open_db CloseOk = None"
  by (simp add: compaction_tick_def Compact_def DB_Close_def Log_Close_def writer_Flush_def
        fresh_db_def half_open_db_def Let_def DB_Get_def HashTable_Get_def hash_fresh_a
        bucket_at_def)

text \<open>
  C10. On a closed database \<open>Set\<close>, \<open>Get\<close> and \<open>Delete\<close> with the empty key, and
  \<open>Set\<close> with a \<open>nil\<close> value, return \<open>ErrDatabaseClosed\<close> and leave the database as
  it was.
\<close>

theorem closed_check_precedes_validation:
  assumes "isClosed db"
  shows "DB_Set db now io [] v = Some (Some ErrDatabaseClosed, db)
       \<and> DB_Set db now io k None = Some (Some ErrDatabaseClosed, db)
       \<and> DB_Get db [] = Some (Inl ErrDatabaseClosed)
       \<and> DB_Delete db now io [] = Some (Some ErrDatabaseClosed, db)"
  using assms by (simp add: DB_Set_def DB_Get_def DB_Delete_def)

theorem closed_check_precedes_validation_witness:
  "isClosed (fresh_db\<lparr>isClosed := True\<rparr>)
   \<and> DB_Set (fresh_db\<lparr>isClosed := True\<rparr>) 1 WriteOk [] None
       = Some (Some ErrDatabaseClosed, fresh_db\<lparr>isClosed := True\<rparr>)
   \<and> DB_Get (fresh_db\<lparr>isClosed := True\<rparr>) [] = Some (Inl ErrDatabaseClosed)
   \<and> DB_Delete (fresh_db\<lparr>isClosed := True\<rparr>) 1 WriteOk []
       = Some (Some ErrDatabaseClosed, fresh_db\<lparr>isClosed := True\<rparr>)"
proof -
  have c: "isClosed (fresh_db\<lparr>isClosed := True\<rparr>)" by simp
  show ?thesis
    using closed_check_precedes_validation [OF c, of 1 WriteOk None "[]"] c by simp
qed

end
